theory Spec2Isabelle
  imports Main
begin

section \<open>The article service over a relational store\<close>

text \<open>
  The development embeds \<^verbatim>\<open>ArticleService\<close> (article.service.ts). The service works on
  four tables through an object-relational mapper. A table is a list of rows in storage
  order; a to-many relation of a user (followers, favourites) is the list of the ids it
  holds, in insertion order and without repetition, as the mapper's collections keep them.
  Primary keys are positive naturals handed out by the store; the id \<open>0\<close> is the falsy
  number that the service tests with \<^verbatim>\<open>userId ? ... : undefined\<close> and stands for an absent
  viewer. Every operation is a function of the store it finds: one call runs alone, from
  its first lookup to its flush.
\<close>

subsection \<open>Entities and the store\<close>

record User =
  user_id :: nat
  username :: string
  followers :: "nat list"
  favorites :: "nat list"

record Article =
  article_id :: nat
  slug :: string
  title :: string
  description :: string
  body :: string
  tagList :: "string list"
  favoritesCount :: int
  createdAt :: nat
  author :: nat

record Comment =
  comment_id :: nat
  comment_body :: string
  comment_author :: nat
  comment_article :: nat

record Tag =
  tag_id :: nat
  tag :: string

record store =
  user_table :: "User list"
  article_table :: "Article list"
  comment_table :: "Comment list"
  tag_table :: "Tag list"

datatype error =
    NotFoundError
  | BadRequestException string
  | SyntaxError
  | NotNullConstraintViolation

subsection \<open>Transport representations\<close>

record ArticleData =
  row :: Article
  favorited :: bool
  following :: bool

record IArticlesRO =
  articles :: "ArticleData list"
  articlesCount :: nat

record IArticleRO =
  article :: "ArticleData option"

text \<open>
  Modelled from the spec: \<^verbatim>\<open>Article.toJSON\<close> lives in article.entity.ts, which is not
  among the sources. The rendering takes the optional viewer and adds the two
  personalised flags, computed from the viewer's \<open>favorites\<close> and \<open>followers\<close> sets; with
  no viewer both flags are false.
\<close>

definition toJSON :: "User option \<Rightarrow> Article \<Rightarrow> ArticleData" where
  "toJSON viewer a =
     (case viewer of
        None \<Rightarrow> \<lparr>row = a, favorited = False, following = False\<rparr>
      | Some u \<Rightarrow> \<lparr>row = a,
                  favorited = (article_id a \<in> set (favorites u)),
                  following = (author a \<in> set (followers u))\<rparr>)"

subsection \<open>Repository lookups\<close>

text \<open>\<^verbatim>\<open>userRepository.findOne(id)\<close> and \<^verbatim>\<open>findOne({ username })\<close>: the first row that
  matches, or nothing.\<close>

definition user_by_id :: "store \<Rightarrow> nat \<Rightarrow> User option" where
  "user_by_id s i = find (\<lambda>u. user_id u = i) (user_table s)"

definition user_by_username :: "store \<Rightarrow> string \<Rightarrow> User option" where
  "user_by_username s n = find (\<lambda>u. username u = n) (user_table s)"

definition article_by_slug :: "store \<Rightarrow> string \<Rightarrow> Article option" where
  "article_by_slug s sl = find (\<lambda>a. slug a = sl) (article_table s)"

text \<open>The viewer of the read operations: \<^verbatim>\<open>userId ? findOne(userId) : undefined\<close>.\<close>

definition viewer_of :: "store \<Rightarrow> nat \<Rightarrow> User option" where
  "viewer_of s userId = (if userId \<noteq> 0 then user_by_id s userId else None)"

text \<open>Flushing a changed entity writes it over the row with its primary key.\<close>

definition flush_user :: "User \<Rightarrow> User list \<Rightarrow> User list" where
  "flush_user u us = map (\<lambda>r. if user_id r = user_id u then u else r) us"

definition flush_article :: "Article \<Rightarrow> Article list \<Rightarrow> Article list" where
  "flush_article a as = map (\<lambda>r. if article_id r = article_id a then a else r) as"

subsection \<open>Numbers from query strings\<close>

text \<open>
  \<^verbatim>\<open>+query.limit\<close> is the unary plus of JavaScript on a string: white space around the
  text is dropped, the empty text is \<open>0\<close>, a numeric literal is its value, and any other
  text is \<open>NaN\<close>. The model gives the value of an optionally signed run of decimal digits.
  The other numeric literals of the language (with a fraction or an exponent, with a radix
  prefix, \<^verbatim>\<open>Infinity\<close>) are recognised and classed as \<open>Other\<close>; their values are not
  modelled. Strings are byte strings, so white space is the ASCII white space, and an
  integer is exact where JavaScript would round beyond \<open>2^53\<close>.
\<close>

datatype jsnum = Num int | Other | NaN

definition is_space :: "char \<Rightarrow> bool" where
  "is_space c = (c \<in> set [CHR '' '', CHR 0x09, CHR 0x0A, CHR 0x0B, CHR 0x0C, CHR 0x0D])"

definition trim :: "string \<Rightarrow> string" where
  "trim s = rev (dropWhile is_space (rev (dropWhile is_space s)))"

definition digit_val :: "char \<Rightarrow> nat option" where
  "digit_val c = map_of
     [(CHR ''0'', 0), (CHR ''1'', 1), (CHR ''2'', 2), (CHR ''3'', 3), (CHR ''4'', 4),
      (CHR ''5'', 5), (CHR ''6'', 6), (CHR ''7'', 7), (CHR ''8'', 8), (CHR ''9'', 9)] c"

definition is_digit :: "char \<Rightarrow> bool" where
  "is_digit c = (digit_val c \<noteq> None)"

fun decimal :: "nat \<Rightarrow> string \<Rightarrow> nat option" where
  "decimal acc [] = Some acc"
| "decimal acc (c # cs) =
     (case digit_val c of None \<Rightarrow> None | Some d \<Rightarrow> decimal (10 * acc + d) cs)"

definition unsigned :: "string \<Rightarrow> nat option" where
  "unsigned ds = (if ds = [] then None else decimal 0 ds)"

definition integer_literal :: "string \<Rightarrow> int option" where
  "integer_literal t =
     (case t of
        [] \<Rightarrow> None
      | c # cs \<Rightarrow>
          if c = CHR ''-'' then map_option (\<lambda>n. - int n) (unsigned cs)
          else if c = CHR ''+'' then map_option int (unsigned cs)
          else map_option int (unsigned (c # cs)))"

text \<open>The numeric literals that unary plus accepts, after trimming.\<close>

definition digits :: "string \<Rightarrow> bool" where
  "digits ds = (ds \<noteq> [] \<and> list_all is_digit ds)"

definition exponent_part :: "string \<Rightarrow> bool" where
  "exponent_part r =
     (case r of
        [] \<Rightarrow> True
      | c # cs \<Rightarrow>
          (c = CHR ''e'' \<or> c = CHR ''E'') \<and>
          (case cs of
             [] \<Rightarrow> False
           | d # ds \<Rightarrow> if d = CHR ''+'' \<or> d = CHR ''-'' then digits ds else digits (d # ds)))"

definition unsigned_decimal :: "string \<Rightarrow> bool" where
  "unsigned_decimal t =
     (t = ''Infinity'' \<or>
      (let ip = takeWhile is_digit t; r = dropWhile is_digit t
       in case r of
            [] \<Rightarrow> ip \<noteq> []
          | c # r' \<Rightarrow>
              if c = CHR ''.''
              then (let fp = takeWhile is_digit r'; r'' = dropWhile is_digit r'
                    in (ip \<noteq> [] \<or> fp \<noteq> []) \<and> exponent_part r'')
              else ip \<noteq> [] \<and> exponent_part (c # r')))"

definition radix_literal :: "string \<Rightarrow> bool" where
  "radix_literal t =
     (case t of
        z # x # ds \<Rightarrow>
          z = CHR ''0'' \<and> ds \<noteq> [] \<and>
          ((x \<in> set ''xX'' \<and> list_all (\<lambda>c. c \<in> set ''0123456789abcdefABCDEF'') ds) \<or>
           (x \<in> set ''oO'' \<and> list_all (\<lambda>c. c \<in> set ''01234567'') ds) \<or>
           (x \<in> set ''bB'' \<and> list_all (\<lambda>c. c \<in> set ''01'') ds))
      | _ \<Rightarrow> False)"

definition numeric_literal :: "string \<Rightarrow> bool" where
  "numeric_literal t =
     (radix_literal t \<or>
      (case t of
         [] \<Rightarrow> False
       | c # cs \<Rightarrow>
           if c = CHR ''+'' \<or> c = CHR ''-'' then unsigned_decimal cs
           else unsigned_decimal (c # cs)))"

definition toNumber :: "string \<Rightarrow> jsnum" where
  "toNumber str =
     (let t = trim str
      in if t = [] then Num 0
         else (case integer_literal t of
                 Some n \<Rightarrow> Num n
               | None \<Rightarrow> if numeric_literal t then Other else NaN))"

subsection \<open>The query builder\<close>

text \<open>
  The builder collects a condition on article rows and the optional limit and offset.
  \<open>count_distinct_id\<close> is \<^verbatim>\<open>qb.count('id', true).execute('get')\<close>, the number of distinct
  ids among the matching rows, and \<open>count_rows\<close> is the number of matching rows, which
  \<^verbatim>\<open>findAndCount\<close> returns. \<open>getResult\<close> is \<^verbatim>\<open>qb.getResult()\<close>: the matching rows,
  newest first as \<^verbatim>\<open>orderBy({ createdAt: QueryOrder.DESC })\<close> asks, then the offset and the
  limit. The
  mapper puts a limit or offset clause into the statement only for a truthy number, so
  \<open>0\<close> and \<open>NaN\<close> leave the clause out. What the store makes of a clause with a negative
  number or with a number of the class \<open>Other\<close> is not modelled: the clause is left out
  for these as well.
\<close>

record QueryBuilder =
  cond :: "Article \<Rightarrow> bool"
  qlimit :: "jsnum option"
  qoffset :: "jsnum option"

definition createQueryBuilder :: QueryBuilder where
  "createQueryBuilder = \<lparr>cond = (\<lambda>a. True), qlimit = None, qoffset = None\<rparr>"

definition andWhere :: "(Article \<Rightarrow> bool) \<Rightarrow> QueryBuilder \<Rightarrow> QueryBuilder" where
  "andWhere p qb = qb\<lparr>cond := (\<lambda>a. cond qb a \<and> p a)\<rparr>"

definition limit :: "jsnum \<Rightarrow> QueryBuilder \<Rightarrow> QueryBuilder" where
  "limit n qb = qb\<lparr>qlimit := Some n\<rparr>"

definition offset :: "jsnum \<Rightarrow> QueryBuilder \<Rightarrow> QueryBuilder" where
  "offset n qb = qb\<lparr>qoffset := Some n\<rparr>"

definition orderByCreatedAtDesc :: "Article list \<Rightarrow> Article list" where
  "orderByCreatedAtDesc rows = rev (sort_key createdAt rows)"

definition apply_offset :: "jsnum option \<Rightarrow> 'a list \<Rightarrow> 'a list" where
  "apply_offset off rows =
     (case off of Some (Num n) \<Rightarrow> (if 0 < n then drop (nat n) rows else rows) | _ \<Rightarrow> rows)"

definition apply_limit :: "jsnum option \<Rightarrow> 'a list \<Rightarrow> 'a list" where
  "apply_limit lim rows =
     (case lim of Some (Num n) \<Rightarrow> (if 0 < n then take (nat n) rows else rows) | _ \<Rightarrow> rows)"


definition count_distinct_id :: "store \<Rightarrow> QueryBuilder \<Rightarrow> nat" where
  "count_distinct_id s qb =
     length (remdups (map article_id (filter (cond qb) (article_table s))))"

definition getResult :: "store \<Rightarrow> QueryBuilder \<Rightarrow> Article list" where
  "getResult s qb =
     apply_limit (qlimit qb) (apply_offset (qoffset qb)
       (orderByCreatedAtDesc (filter (cond qb) (article_table s))))"

subsection \<open>findAll\<close>

text \<open>
  The tag filter is \<^verbatim>\<open>{ tagList: new RegExp(query.tag) }\<close>. The constructor raises a
  syntax error on a malformed pattern; otherwise the store matches the pattern against
  the stored tag list. Both belong to the language and to the storage layer, so they are
  an argument of the model: \<open>RegExp p\<close> is \<open>None\<close> when the constructor raises on \<open>p\<close>,
  and otherwise the test that the store applies to a tag list.
\<close>

type_synonym regexp = "string \<Rightarrow> (string list \<Rightarrow> bool) option"

type_synonym query = "string \<rightharpoonup> string"

definition no_articles :: IArticlesRO where
  "no_articles = \<lparr>articles = [], articlesCount = 0\<rparr>"

definition findAll :: "regexp \<Rightarrow> store \<Rightarrow> nat \<Rightarrow> query \<Rightarrow> error + IArticlesRO" where
  "findAll RegExp s userId query =
     (let user = viewer_of s userId;
          qb = createQueryBuilder
      in case (case query ''tag'' of
                 None \<Rightarrow> Inr qb
               | Some t \<Rightarrow>
                   (case RegExp t of
                      None \<Rightarrow> Inl SyntaxError
                    | Some re \<Rightarrow> Inr (andWhere (\<lambda>a. re (tagList a)) qb))) of
           Inl e \<Rightarrow> Inl e
         | Inr qb \<Rightarrow>
        (case (case query ''author'' of
                 None \<Rightarrow> Some qb
               | Some name \<Rightarrow>
                   (case user_by_username s name of
                      None \<Rightarrow> None
                    | Some au \<Rightarrow> Some (andWhere (\<lambda>a. author a = user_id au) qb))) of
           None \<Rightarrow> Inr no_articles
         | Some qb \<Rightarrow>
        (case (case query ''favorited'' of
                 None \<Rightarrow> Some qb
               | Some name \<Rightarrow>
                   (case user_by_username s name of
                      None \<Rightarrow> None
                    | Some au \<Rightarrow>
                        (let ids = favorites au
                         in Some (andWhere (\<lambda>a. author a \<in> set ids) qb)))) of
           None \<Rightarrow> Inr no_articles
         | Some qb \<Rightarrow>
             (let articlesCount = count_distinct_id s qb;
                  qb = (case query ''limit'' of
                          None \<Rightarrow> qb
                        | Some l \<Rightarrow> limit (toNumber l) qb);
                  qb = (case query ''offset'' of
                          None \<Rightarrow> qb
                        | Some off \<Rightarrow> offset (toNumber off) qb);
                  rows = getResult s qb
              in Inr \<lparr>articles = map (toJSON user) rows,
                      articlesCount = articlesCount\<rparr>))))"

text \<open>For the examples: an engine that accepts every pattern and reads it as literal text
  to be found in the tag list joined with commas.\<close>

fun occurs_in :: "string \<Rightarrow> string \<Rightarrow> bool" where
  "occurs_in p [] = (p = [])"
| "occurs_in p (c # cs) = (take (length p) (c # cs) = p \<or> occurs_in p cs)"

fun join_commas :: "string list \<Rightarrow> string" where
  "join_commas [] = []"
| "join_commas [x] = x"
| "join_commas (x # y # ys) = x @ '','' @ join_commas (y # ys)"

definition literal :: regexp where
  "literal p = Some (\<lambda>tags. occurs_in p (join_commas tags))"

subsection \<open>findFeed\<close>





subsection \<open>findOne\<close>

text \<open>\<^verbatim>\<open>findOneOrFail\<close> raises the mapper's not-found error where \<^verbatim>\<open>findOne\<close> returns nothing.
  The selector \<^verbatim>\<open>where: Partial<Article>\<close> is the predicate its field values stand for.\<close>

definition user_by_id_or_fail :: "store \<Rightarrow> nat \<Rightarrow> error + User" where
  "user_by_id_or_fail s i =
     (case user_by_id s i of None \<Rightarrow> Inl NotFoundError | Some u \<Rightarrow> Inr u)"

definition article_by_slug_or_fail :: "store \<Rightarrow> string \<Rightarrow> error + Article" where
  "article_by_slug_or_fail s sl =
     (case article_by_slug s sl of None \<Rightarrow> Inl NotFoundError | Some a \<Rightarrow> Inr a)"

definition findOne :: "store \<Rightarrow> nat \<Rightarrow> (Article \<Rightarrow> bool) \<Rightarrow> error + IArticleRO" where
  "findOne s userId where =
     (case (if userId \<noteq> 0 then map_sum id Some (user_by_id_or_fail s userId)
            else Inr None) of
        Inl e \<Rightarrow> Inl e
      | Inr user \<Rightarrow>
          (let found = find where (article_table s)
           in Inr \<lparr>article = map_option (toJSON user) found\<rparr>))"

subsection \<open>Operations that write\<close>

text \<open>
  An operation that writes returns its outcome together with the store it leaves behind,
  so that what a failed call has persisted can be stated.
\<close>

definition comments_contains :: "store \<Rightarrow> Article \<Rightarrow> nat \<Rightarrow> bool" where
  "comments_contains s a i =
     (\<exists>c \<in> set (comment_table s). comment_id c = i \<and> comment_article c = article_id a)"

definition deleteComment ::
  "store \<Rightarrow> nat \<Rightarrow> string \<Rightarrow> nat \<Rightarrow> (error + IArticleRO) \<times> store" where
  "deleteComment s userId sl i =
     (case article_by_slug_or_fail s sl of
        Inl e \<Rightarrow> (Inl e, s)
      | Inr a \<Rightarrow>
     (case user_by_id_or_fail s userId of
        Inl e \<Rightarrow> (Inl e, s)
      | Inr user \<Rightarrow>
          (let s' = (if comments_contains s a i
                     then s\<lparr>comment_table := filter (\<lambda>c. comment_id c \<noteq> i) (comment_table s)\<rparr>
                     else s)
           in (Inr \<lparr>article = Some (toJSON (Some user) a)\<rparr>, s'))))"

definition favorite :: "store \<Rightarrow> nat \<Rightarrow> string \<Rightarrow> (error + IArticleRO) \<times> store" where
  "favorite s i sl =
     (case article_by_slug_or_fail s sl of
        Inl e \<Rightarrow> (Inl e, s)
      | Inr a \<Rightarrow>
     (case user_by_id_or_fail s i of
        Inl e \<Rightarrow> (Inl e, s)
      | Inr user \<Rightarrow>
          (if article_id a \<notin> set (favorites user)
           then (let user' = user\<lparr>favorites := favorites user @ [article_id a]\<rparr>;
                     a' = a\<lparr>favoritesCount := favoritesCount a + 1\<rparr>
                 in (Inr \<lparr>article = Some (toJSON (Some user') a')\<rparr>,
                     s\<lparr>user_table := flush_user user' (user_table s),
                       article_table := flush_article a' (article_table s)\<rparr>))
           else (Inr \<lparr>article = Some (toJSON (Some user) a)\<rparr>, s))))"

definition unFavorite :: "store \<Rightarrow> nat \<Rightarrow> string \<Rightarrow> (error + IArticleRO) \<times> store" where
  "unFavorite s i sl =
     (case article_by_slug_or_fail s sl of
        Inl e \<Rightarrow> (Inl e, s)
      | Inr a \<Rightarrow>
     (case user_by_id_or_fail s i of
        Inl e \<Rightarrow> (Inl e, s)
      | Inr user \<Rightarrow>
          (if article_id a \<in> set (favorites user)
           then (let user' = user\<lparr>favorites := filter (\<lambda>x. x \<noteq> article_id a) (favorites user)\<rparr>;
                     a' = a\<lparr>favoritesCount := favoritesCount a - 1\<rparr>
                 in (Inr \<lparr>article = Some (toJSON (Some user') a')\<rparr>,
                     s\<lparr>user_table := flush_user user' (user_table s),
                       article_table := flush_article a' (article_table s)\<rparr>))
           else (Inr \<lparr>article = Some (toJSON (Some user) a)\<rparr>, s))))"

subsection \<open>create and processTags\<close>

text \<open>
  \<^verbatim>\<open>tagList\<close> arrives as one string, as an array of strings, or as anything else.
  \<^verbatim>\<open>split(',')\<close> cuts at every comma and keeps empty pieces; \<^verbatim>\<open>trim\<close> drops white space at
  both ends; a \<^verbatim>\<open>Set\<close> keeps the first occurrence of each member, in insertion order.
\<close>

datatype tagList_input = TagString string | TagArray "string list" | TagOther

fun split_comma :: "string \<Rightarrow> string list" where
  "split_comma [] = [[]]"
| "split_comma (c # cs) =
     (if c = CHR '','' then [] # split_comma cs
      else (case split_comma cs of
              [] \<Rightarrow> [[c]]
            | w # ws \<Rightarrow> (c # w) # ws))"

definition Set_of :: "string list \<Rightarrow> string list" where
  "Set_of xs = rev (remdups (rev xs))"

definition processTags :: "tagList_input \<Rightarrow> string list" where
  "processTags input =
     (let tags = (case input of
                    TagString str \<Rightarrow> map trim (split_comma str)
                  | TagArray xs \<Rightarrow> map trim xs
                  | TagOther \<Rightarrow> [])
      in Set_of tags)"

record CreateArticleDto =
  dto_title :: "string option"
  dto_description :: "string option"
  dto_body :: "string option"
  dto_tagList :: tagList_input

text \<open>\<^verbatim>\<open>!dto.title\<close> holds for a missing field and for the empty string.\<close>

definition text_of :: "string option \<Rightarrow> string" where
  "text_of v = (case v of None \<Rightarrow> [] | Some str \<Rightarrow> str)"

definition fresh_id :: "nat list \<Rightarrow> nat" where
  "fresh_id ids = Suc (fold max ids 0)"

text \<open>The loop over \<open>tagsToAdd\<close>: a name that is not among the existing ones gets a new row.\<close>

fun persist_new_tags :: "string list \<Rightarrow> string list \<Rightarrow> Tag list \<Rightarrow> Tag list" where
  "persist_new_tags existingTagNames [] tbl = tbl"
| "persist_new_tags existingTagNames (tagName # rest) tbl =
     persist_new_tags existingTagNames rest
       (if tagName \<notin> set existingTagNames
        then tbl @ [\<lparr>tag_id = fresh_id (map tag_id tbl), tag = tagName\<rparr>]
        else tbl)"

text \<open>What the constructor draws from its environment: the random suffix of the slug and
  the clock. Both are inputs of the model.\<close>

record fresh =
  new_slug :: string
  now :: nat

text \<open>
  Modelled from the spec: the \<^verbatim>\<open>Article\<close> constructor is in article.entity.ts, which is
  not among the sources. A new article has the given author, title, description and body,
  an empty tag list and no favourites; its slug is derived from the title and it is
  stamped with the time of creation.
\<close>

definition new_Article :: "store \<Rightarrow> fresh \<Rightarrow> User \<Rightarrow> string \<Rightarrow> string \<Rightarrow> string \<Rightarrow> Article" where
  "new_Article s f u t d b =
     \<lparr>article_id = fresh_id (map article_id (article_table s)), slug = new_slug f,
      title = t, description = d, body = b, tagList = [], favoritesCount = 0,
      createdAt = now f, author = user_id u\<rparr>"

text \<open>
  \<open>create\<close> looks the author up with \<^verbatim>\<open>findOne\<close>, which returns nothing for an unknown id.
  In the data model of the spec an article needs an author, so the store refuses the row
  of an article without one; the transaction is rolled back and the store is the one
  before the call. \<^verbatim>\<open>user?.articles.add(article)\<close> is the inverse side of the author column
  and adds nothing to the store.
\<close>

definition create ::
  "store \<Rightarrow> fresh \<Rightarrow> nat \<Rightarrow> CreateArticleDto \<Rightarrow> (error + IArticleRO) \<times> store" where
  "create s f userId dto =
     (if text_of (dto_title dto) = [] \<or> text_of (dto_description dto) = []
         \<or> text_of (dto_body dto) = []
      then (Inl (BadRequestException ''Title, description, and body are required.''), s)
      else
        (let found = user_by_id s userId;
             tagsToAdd = processTags (dto_tagList dto)
         in case found of
              None \<Rightarrow> (Inl NotNullConstraintViolation, s)
            | Some user \<Rightarrow>
                (let a0 = new_Article s f user (text_of (dto_title dto))
                            (text_of (dto_description dto)) (text_of (dto_body dto));
                     a = a0\<lparr>tagList := tagList a0 @ tagsToAdd\<rparr>;
                     s1 = s\<lparr>article_table := article_table s @ [a]\<rparr>;
                     existingTags = filter (\<lambda>t. tag t \<in> set tagsToAdd) (tag_table s1);
                     existingTagNames = map tag existingTags;
                     s2 = s1\<lparr>tag_table := persist_new_tags existingTagNames tagsToAdd (tag_table s1)\<rparr>
                 in (Inr \<lparr>article = Some (toJSON (Some user) a)\<rparr>, s2))))"

section \<open>Properties of the service\<close>

subsection \<open>The relation behind the favourites counter\<close>

text \<open>The number of users whose favourites hold the article with a given id, and the
  invariant that every article's counter is that number.\<close>

definition favoriters :: "store \<Rightarrow> nat \<Rightarrow> nat" where
  "favoriters s aid = length (filter (\<lambda>u. aid \<in> set (favorites u)) (user_table s))"

definition counter_in_sync :: "store \<Rightarrow> bool" where
  "counter_in_sync s =
     (\<forall>a \<in> set (article_table s). favoritesCount a = int (favoriters s (article_id a)))"

subsection \<open>A small store\<close>

text \<open>
  Three users and two articles. Bob follows Carol. Alice has favourited Carol's article
  \<open>two\<close>, whose counter is therefore 1; nobody has favourited Bob's article \<open>one\<close>. The
  only comment belongs to article \<open>two\<close>, and the tag \<open>foo\<close> is already known.
\<close>

definition alice :: User where
  "alice = \<lparr>user_id = 1, username = ''alice'', followers = [], favorites = [2]\<rparr>"

definition bob :: User where
  "bob = \<lparr>user_id = 2, username = ''bob'', followers = [], favorites = []\<rparr>"

definition carol :: User where
  "carol = \<lparr>user_id = 3, username = ''carol'', followers = [2], favorites = []\<rparr>"

definition article_one :: Article where
  "article_one = \<lparr>article_id = 1, slug = ''one'', title = ''One'', description = ''first'',
     body = ''text'', tagList = [], favoritesCount = 0, createdAt = 10, author = 2\<rparr>"

definition article_two :: Article where
  "article_two = \<lparr>article_id = 2, slug = ''two'', title = ''Two'', description = ''second'',
     body = ''text'', tagList = [''foo''], favoritesCount = 1, createdAt = 20, author = 3\<rparr>"

definition demo :: store where
  "demo = \<lparr>user_table = [alice, bob, carol],
           article_table = [article_one, article_two],
           comment_table = [\<lparr>comment_id = 1, comment_body = ''nice'', comment_author = 2,
                             comment_article = 2\<rparr>],
           tag_table = [\<lparr>tag_id = 1, tag = ''foo''\<rparr>]\<rparr>"

text \<open>A request to create an article whose tag list repeats \<open>foo\<close>, and the slug and
  time the constructor would give it.\<close>

definition draft :: CreateArticleDto where
  "draft = \<lparr>dto_title = Some ''Three'', dto_description = Some ''third'',
            dto_body = Some ''text'', dto_tagList = TagString ''foo, bar, foo''\<rparr>"

definition stamp :: fresh where
  "stamp = \<lparr>new_slug = ''three-x1'', now = 30\<rparr>"

text \<open>A store with five articles, all by Bob, for the pagination example.\<close>

definition post :: "nat \<Rightarrow> string \<Rightarrow> Article" where
  "post n sl = \<lparr>article_id = n, slug = sl, title = sl, description = ''about'',
     body = ''text'', tagList = [], favoritesCount = 0, createdAt = n, author = 2\<rparr>"

definition five :: store where
  "five = \<lparr>user_table = [bob],
           article_table = [post 1 ''p1'', post 2 ''p2'', post 3 ''p3'', post 4 ''p4'',
                            post 5 ''p5''],
           comment_table = [], tag_table = []\<rparr>"

subsection \<open>Lookups and flushes\<close>

lemma user_by_id_SomeD:
  "user_by_id s i = Some u \<Longrightarrow> u \<in> set (user_table s) \<and> user_id u = i"
  by (auto simp: user_by_id_def find_Some_iff)

lemma article_by_slug_SomeD:
  "article_by_slug s sl = Some a \<Longrightarrow> a \<in> set (article_table s) \<and> slug a = sl"
  by (auto simp: article_by_slug_def find_Some_iff)

lemma flush_user_absent:
  "user_id u \<notin> user_id ` set us \<Longrightarrow> flush_user u us = us"
  by (induction us) (auto simp: flush_user_def)

lemma flush_article_cases:
  "r \<in> set (flush_article a' as) \<Longrightarrow>
     r = a' \<or> (r \<in> set as \<and> article_id r \<noteq> article_id a')"
  by (auto simp: flush_article_def split: if_splits)

text \<open>With unique user ids a flush replaces exactly one row, so a count over the users
  changes by what the replaced and the new row contribute.\<close>

lemma count_flush_user:
  assumes "distinct (map user_id us)" and "u \<in> set us" and "user_id u' = user_id u"
  shows "int (length (filter P (flush_user u' us))) =
         int (length (filter P us)) - (if P u then 1 else 0) + (if P u' then 1 else 0)"
  using assms
proof (induction us)
  case Nil
  then show ?case by simp
next
  case (Cons r us)
  show ?case
  proof (cases "r = u")
    case True
    with Cons.prems have "user_id u' \<notin> user_id ` set us" by auto
    then have "flush_user u' us = us" by (rule flush_user_absent)
    then have "flush_user u' (r # us) = u' # us"
      using True Cons.prems(3) by (simp add: flush_user_def)
    then show ?thesis using True by simp
  next
    case False
    with Cons.prems have mem: "u \<in> set us" and ne: "user_id r \<noteq> user_id u'" by auto
    from ne have "flush_user u' (r # us) = r # flush_user u' us"
      by (simp add: flush_user_def)
    moreover have "int (length (filter P (flush_user u' us))) =
         int (length (filter P us)) - (if P u then 1 else 0) + (if P u' then 1 else 0)"
      using Cons.IH Cons.prems mem by simp
    ultimately show ?thesis by (auto split: if_splits)
  qed
qed

subsection \<open>The store that favorite and unFavorite leave behind\<close>

lemma snd_favorite:
  "snd (favorite s i sl) =
     (case article_by_slug s sl of
        None \<Rightarrow> s
      | Some a \<Rightarrow>
          (case user_by_id s i of
             None \<Rightarrow> s
           | Some u \<Rightarrow>
               if article_id a \<notin> set (favorites u)
               then s\<lparr>user_table :=
                        flush_user (u\<lparr>favorites := favorites u @ [article_id a]\<rparr>) (user_table s),
                      article_table :=
                        flush_article (a\<lparr>favoritesCount := favoritesCount a + 1\<rparr>) (article_table s)\<rparr>
               else s))"
  by (simp add: favorite_def article_by_slug_or_fail_def user_by_id_or_fail_def Let_def
      split: option.splits)

lemma snd_unFavorite:
  "snd (unFavorite s i sl) =
     (case article_by_slug s sl of
        None \<Rightarrow> s
      | Some a \<Rightarrow>
          (case user_by_id s i of
             None \<Rightarrow> s
           | Some u \<Rightarrow>
               if article_id a \<in> set (favorites u)
               then s\<lparr>user_table :=
                        flush_user (u\<lparr>favorites := filter (\<lambda>x. x \<noteq> article_id a) (favorites u)\<rparr>)
                          (user_table s),
                      article_table :=
                        flush_article (a\<lparr>favoritesCount := favoritesCount a - 1\<rparr>) (article_table s)\<rparr>
               else s))"
  by (simp add: unFavorite_def article_by_slug_or_fail_def user_by_id_or_fail_def Let_def
      split: option.splits)

text \<open>One user row and one article row are rewritten together. If the counter moves by
  what the user's membership of that article moved, and no other membership of the user
  changed, the invariant survives.\<close>

lemma sync_after_write:
  assumes d: "distinct (map user_id (user_table s))" and sync: "counter_in_sync s"
    and a: "a \<in> set (article_table s)" and u: "u \<in> set (user_table s)"
    and id: "user_id u' = user_id u"
    and others: "\<And>b. b \<noteq> article_id a \<Longrightarrow> b \<in> set (favorites u') \<longleftrightarrow> b \<in> set (favorites u)"
    and cnt: "favoritesCount a' = favoritesCount a
                - (if article_id a \<in> set (favorites u) then 1 else 0)
                + (if article_id a \<in> set (favorites u') then 1 else 0)"
    and aid: "article_id a' = article_id a"
  shows "counter_in_sync (s\<lparr>user_table := flush_user u' (user_table s),
                            article_table := flush_article a' (article_table s)\<rparr>)"
  unfolding counter_in_sync_def
proof
  let ?s' = "s\<lparr>user_table := flush_user u' (user_table s),
               article_table := flush_article a' (article_table s)\<rparr>"
  fix r assume "r \<in> set (article_table ?s')"
  then have r: "r \<in> set (flush_article a' (article_table s))" by simp
  have count: "\<And>b. int (favoriters ?s' b) = int (favoriters s b)
         - (if b \<in> set (favorites u) then 1 else 0) + (if b \<in> set (favorites u') then 1 else 0)"
    using count_flush_user [OF d u id] by (simp add: favoriters_def)
  from flush_article_cases [OF r] show "favoritesCount r = int (favoriters ?s' (article_id r))"
  proof
    assume "r = a'"
    moreover have "favoritesCount a = int (favoriters s (article_id a))"
      using sync a by (simp add: counter_in_sync_def)
    ultimately show ?thesis using cnt aid count [of "article_id a"] by simp
  next
    assume "r \<in> set (article_table s) \<and> article_id r \<noteq> article_id a'"
    then have mem: "r \<in> set (article_table s)" and ne: "article_id r \<noteq> article_id a"
      using aid by auto
    have "favoritesCount r = int (favoriters s (article_id r))"
      using sync mem by (simp add: counter_in_sync_def)
    then show ?thesis using count [of "article_id r"] others [OF ne] by simp
  qed
qed

subsection \<open>What favorite and unFavorite return\<close>

lemma find_flush_user:
  "find (\<lambda>r. user_id r = i) us = Some u \<Longrightarrow> user_id u' = i \<Longrightarrow>
     find (\<lambda>r. user_id r = i) (flush_user u' us) = Some u'"
  by (induction us) (auto simp: flush_user_def split: if_splits)

lemma find_flush_article:
  "find (\<lambda>r. slug r = sl) as = Some a \<Longrightarrow> slug a' = sl \<Longrightarrow> article_id a' = article_id a \<Longrightarrow>
     find (\<lambda>r. slug r = sl) (flush_article a' as) = Some a'"
  by (induction as) (auto simp: flush_article_def split: if_splits)

lemma lookups_after_write:
  assumes "article_by_slug s sl = Some a" and "user_by_id s i = Some u"
    and "slug a' = slug a" and "article_id a' = article_id a" and "user_id u' = user_id u"
  shows "article_by_slug (s\<lparr>user_table := flush_user u' (user_table s),
                            article_table := flush_article a' (article_table s)\<rparr>) sl = Some a'
       \<and> user_by_id (s\<lparr>user_table := flush_user u' (user_table s),
                        article_table := flush_article a' (article_table s)\<rparr>) i = Some u'"
  using assms article_by_slug_SomeD [OF assms(1)] user_by_id_SomeD [OF assms(2)]
  by (simp add: article_by_slug_def user_by_id_def find_flush_user find_flush_article)

lemma favorite_result:
  assumes "article_by_slug s sl = Some a" and "user_by_id s i = Some u"
  shows "favorite s i sl =
     (if article_id a \<notin> set (favorites u)
      then (Inr \<lparr>article = Some (toJSON (Some (u\<lparr>favorites := favorites u @ [article_id a]\<rparr>))
                                  (a\<lparr>favoritesCount := favoritesCount a + 1\<rparr>))\<rparr>,
            s\<lparr>user_table := flush_user (u\<lparr>favorites := favorites u @ [article_id a]\<rparr>) (user_table s),
              article_table := flush_article (a\<lparr>favoritesCount := favoritesCount a + 1\<rparr>) (article_table s)\<rparr>)
      else (Inr \<lparr>article = Some (toJSON (Some u) a)\<rparr>, s))"
  using assms
  by (simp add: favorite_def article_by_slug_or_fail_def user_by_id_or_fail_def Let_def)

lemma unFavorite_result:
  assumes "article_by_slug s sl = Some a" and "user_by_id s i = Some u"
  shows "unFavorite s i sl =
     (if article_id a \<in> set (favorites u)
      then (Inr \<lparr>article = Some (toJSON (Some (u\<lparr>favorites := filter (\<lambda>x. x \<noteq> article_id a) (favorites u)\<rparr>))
                                  (a\<lparr>favoritesCount := favoritesCount a - 1\<rparr>))\<rparr>,
            s\<lparr>user_table := flush_user (u\<lparr>favorites := filter (\<lambda>x. x \<noteq> article_id a) (favorites u)\<rparr>) (user_table s),
              article_table := flush_article (a\<lparr>favoritesCount := favoritesCount a - 1\<rparr>) (article_table s)\<rparr>)
      else (Inr \<lparr>article = Some (toJSON (Some u) a)\<rparr>, s))"
  using assms
  by (simp add: unFavorite_def article_by_slug_or_fail_def user_by_id_or_fail_def Let_def)

subsection \<open>Paging\<close>

lemma apply_limit_take: "\<exists>n. apply_limit l ys = take n ys"
proof (cases "\<exists>n. l = Some (Num n) \<and> 0 < n")
  case True
  then show ?thesis by (auto simp: apply_limit_def)
next
  case False
  then have "apply_limit l ys = take (length ys) ys"
    by (auto simp: apply_limit_def split: option.splits jsnum.splits)
  then show ?thesis by blast
qed

lemma apply_offset_drop: "\<exists>k. apply_offset off ys = drop k ys"
proof (cases "\<exists>n. off = Some (Num n) \<and> 0 < n")
  case True
  then show ?thesis by (auto simp: apply_offset_def)
next
  case False
  then have "apply_offset off ys = drop 0 ys"
    by (auto simp: apply_offset_def split: option.splits jsnum.splits)
  then show ?thesis by blast
qed

lemma apply_limit_Nil [simp]: "apply_limit l [] = []"
  by (simp add: apply_limit_def split: option.splits jsnum.splits)

lemma apply_offset_Nil [simp]: "apply_offset off [] = []"
  by (simp add: apply_offset_def split: option.splits jsnum.splits)

lemma length_orderByCreatedAtDesc [simp]: "length (orderByCreatedAtDesc rows) = length rows"
  by (simp add: orderByCreatedAtDesc_def)

lemma getResult_paged:
  assumes "qlimit qb = None" and "qoffset qb = None"
  shows "getResult s (case off of None \<Rightarrow> (case l of None \<Rightarrow> qb | Some x \<Rightarrow> limit (toNumber x) qb)
                      | Some y \<Rightarrow> offset (toNumber y)
                                   (case l of None \<Rightarrow> qb | Some x \<Rightarrow> limit (toNumber x) qb)) =
         apply_limit (map_option toNumber l) (apply_offset (map_option toNumber off)
           (orderByCreatedAtDesc (filter (cond qb) (article_table s))))"
  using assms by (simp add: getResult_def limit_def offset_def split: option.splits)

lemma set_orderByCreatedAtDesc [simp]: "set (orderByCreatedAtDesc rows) = set rows"
  by (simp add: orderByCreatedAtDesc_def)

lemma distinct_orderByCreatedAtDesc [simp]:
  "distinct (orderByCreatedAtDesc rows) = distinct rows"
  by (simp add: orderByCreatedAtDesc_def)

lemma count_distinct_id_paged:
  "count_distinct_id s qb =
     length (remdups (map article_id (orderByCreatedAtDesc (filter (cond qb) (article_table s)))))"
  by (simp add: count_distinct_id_def length_remdups_card_conv)

lemma distinct_ids_matching:
  assumes "distinct (map article_id (article_table s))"
  shows "distinct (map article_id (orderByCreatedAtDesc (filter p (article_table s))))"
proof -
  from assms have "distinct (article_table s)" and "inj_on article_id (set (article_table s))"
    by (simp_all add: distinct_map)
  then have "distinct (filter p (article_table s))"
    and "inj_on article_id (set (filter p (article_table s)))"
    by (auto intro: inj_on_subset)
  then show ?thesis by (simp add: distinct_map)
qed

text \<open>The only failure of \<open>findAll\<close> is the syntax error of the tag pattern.\<close>

lemma findAll_failure:
  assumes "findAll RegExp s userId query = Inl e"
  shows "e = SyntaxError"
  using assms unfolding findAll_def Let_def
  by (simp add: no_articles_def split: option.splits sum.splits)

text \<open>The outcome as a function of the limit and offset entries alone: a failure that
  does not depend on them, or a window of rows that do not depend on them, with the count
  of their distinct ids.\<close>

lemma findAll_paged:
  "\<exists>res. (\<forall>l off.
     findAll RegExp s userId (query(''limit'' := l, ''offset'' := off)) =
       map_sum id
         (\<lambda>rows. \<lparr>articles = map (toJSON (viewer_of s userId))
                               (apply_limit (map_option toNumber l)
                                  (apply_offset (map_option toNumber off) rows)),
                   articlesCount = length (remdups (map article_id rows))\<rparr>) res)
   \<and> (\<forall>rows. res = Inr rows \<longrightarrow> distinct (map article_id (article_table s)) \<longrightarrow>
         distinct (map article_id rows))"
proof -
  let ?q = "\<lambda>l off. query(''limit'' := l, ''offset'' := off)"
  let ?r1 = "case query ''tag'' of
               None \<Rightarrow> Inr createQueryBuilder
             | Some t \<Rightarrow>
                 (case RegExp t of
                    None \<Rightarrow> Inl SyntaxError
                  | Some re \<Rightarrow> Inr (andWhere (\<lambda>a. re (tagList a)) createQueryBuilder))"
  let ?r2 = "\<lambda>qb. case query ''author'' of
               None \<Rightarrow> Some qb
             | Some name \<Rightarrow>
                 (case user_by_username s name of
                    None \<Rightarrow> None
                  | Some au \<Rightarrow> Some (andWhere (\<lambda>a. author a = user_id au) qb))"
  let ?r3 = "\<lambda>qb. case query ''favorited'' of
               None \<Rightarrow> Some qb
             | Some name \<Rightarrow>
                 (case user_by_username s name of
                    None \<Rightarrow> None
                  | Some au \<Rightarrow> Some (andWhere (\<lambda>a. author a \<in> set (favorites au)) qb))"
  let ?page = "\<lambda>l off rows. \<lparr>articles = map (toJSON (viewer_of s userId))
                               (apply_limit (map_option toNumber l)
                                  (apply_offset (map_option toNumber off) rows)),
                   articlesCount = length (remdups (map article_id rows))\<rparr>"
  let ?goal = "\<lambda>res. (\<forall>l off. findAll RegExp s userId (?q l off) = map_sum id (?page l off) res)
     \<and> (\<forall>rows. res = Inr rows \<longrightarrow> distinct (map article_id (article_table s)) \<longrightarrow>
           distinct (map article_id rows))"
  have keys: "\<And>l off. ?q l off ''tag'' = query ''tag''"
    "\<And>l off. ?q l off ''author'' = query ''author''"
    "\<And>l off. ?q l off ''favorited'' = query ''favorited''"
    "\<And>l off. ?q l off ''limit'' = l"
    "\<And>l off. ?q l off ''offset'' = off"
    by simp_all
  have empty: "?goal (Inr [])"
    if "\<forall>l off. findAll RegExp s userId (?q l off) = Inr no_articles"
    by (simp add: that no_articles_def)
  show ?thesis
  proof (cases ?r1)
    case (Inl e)
    have "\<forall>l off. findAll RegExp s userId (?q l off) = map_sum id (?page l off) (Inl e)"
      unfolding findAll_def keys Let_def by (simp only: Inl sum.case map_sum.simps id_apply simp_thms)
    then have "?goal (Inl e)" by simp
    then show ?thesis by (rule exI [of _ "Inl e"])
  next
    case r1: (Inr qb1)
    have qb1: "qlimit qb1 = None \<and> qoffset qb1 = None"
      using r1 by (auto simp: createQueryBuilder_def andWhere_def split: option.splits)
    show ?thesis
    proof (cases "?r2 qb1")
      case None
      have "\<forall>l off. findAll RegExp s userId (?q l off) = Inr no_articles"
        unfolding findAll_def keys Let_def by (simp only: r1 None sum.case option.case simp_thms)
      then have "?goal (Inr [])" by (rule empty)
      then show ?thesis by (rule exI [of _ "Inr []"])
    next
      case r2: (Some qb2)
      have qb2: "qlimit qb2 = None \<and> qoffset qb2 = None"
        using r2 qb1 by (auto simp: andWhere_def split: option.splits)
      show ?thesis
      proof (cases "?r3 qb2")
        case None
        have "\<forall>l off. findAll RegExp s userId (?q l off) = Inr no_articles"
          unfolding findAll_def keys Let_def
          by (simp only: r1 r2 None sum.case option.case simp_thms)
        then have "?goal (Inr [])" by (rule empty)
        then show ?thesis by (rule exI [of _ "Inr []"])
      next
        case r3: (Some qb3)
        let ?rows = "orderByCreatedAtDesc (filter (cond qb3) (article_table s))"
        have qb3: "qlimit qb3 = None" "qoffset qb3 = None"
          using r3 qb2 by (auto simp: andWhere_def split: option.splits)
        have "\<forall>l off. findAll RegExp s userId (?q l off) = map_sum id (?page l off) (Inr ?rows)"
          unfolding findAll_def keys Let_def
          by (simp only: r1 r2 r3 sum.case option.case getResult_paged [OF qb3]
              count_distinct_id_paged map_sum.simps simp_thms)
        then have "?goal (Inr ?rows)"
          using distinct_ids_matching [of s "cond qb3"] by simp
        then show ?thesis by (rule exI [of _ "Inr ?rows"])
      qed
    qed
  qed
qed


subsection \<open>Tag names\<close>

lemma last_dropWhile_nonempty: "dropWhile P xs \<noteq> [] \<Longrightarrow> last (dropWhile P xs) = last xs"
  by (induction xs) (auto split: if_splits)

lemma trim_trimmed:
  "trim x = [] \<or> (\<not> is_space (hd (trim x)) \<and> \<not> is_space (last (trim x)))"
proof (cases "trim x = []")
  case True
  then show ?thesis by simp
next
  case False
  define y where "y = dropWhile is_space x"
  define z where "z = dropWhile is_space (rev y)"
  have tr: "trim x = rev z" by (simp add: trim_def y_def z_def)
  with False have z: "z \<noteq> []" by simp
  then have y: "y \<noteq> []" unfolding z_def by auto
  have "last (rev z) = hd z" using z by (simp add: last_rev)
  moreover have "\<not> is_space (hd z)" using z unfolding z_def by (rule hd_dropWhile)
  moreover have "hd (rev z) = last z" using z by (simp add: hd_rev)
  moreover have "last z = last (rev y)" using z unfolding z_def by (rule last_dropWhile_nonempty)
  moreover have "last (rev y) = hd y" using y by (simp add: last_rev)
  moreover have "\<not> is_space (hd y)" using y unfolding y_def by (rule hd_dropWhile)
  ultimately show ?thesis unfolding tr by simp
qed

lemma set_Set_of [simp]: "set (Set_of xs) = set xs"
  by (simp add: Set_of_def)

lemma distinct_Set_of [simp]: "distinct (Set_of xs)"
  by (simp add: Set_of_def)

lemma map_tag_persist_new_tags:
  "\<exists>new. persist_new_tags ex ns tbl = tbl @ new \<and> map tag new = filter (\<lambda>n. n \<notin> set ex) ns"
proof (induction ns arbitrary: tbl)
  case Nil
  then show ?case by simp
next
  case (Cons n ns)
  show ?case
  proof (cases "n \<in> set ex")
    case True
    with Cons.IH [of tbl] show ?thesis by simp
  next
    case False
    let ?row = "\<lparr>tag_id = fresh_id (map tag_id tbl), tag = n\<rparr>"
    from Cons.IH [of "tbl @ [?row]"] obtain new where
      "persist_new_tags ex ns (tbl @ [?row]) = (tbl @ [?row]) @ new"
      "map tag new = filter (\<lambda>n. n \<notin> set ex) ns" by blast
    then have "persist_new_tags ex (n # ns) tbl = tbl @ (?row # new)
       \<and> map tag (?row # new) = filter (\<lambda>n. n \<notin> set ex) (n # ns)"
      using False by simp
    then show ?thesis by blast
  qed
qed

lemma one_row_per_name:
  assumes "distinct names" and "n \<in> set names"
  shows "length (filter (\<lambda>x. x = n) names) = 1"
  using assms by (induction names) (auto simp: filter_empty_conv)

lemma count_rows_by_name:
  "length (filter (\<lambda>t. tag t = n) tbl) = length (filter (\<lambda>x. x = n) (map tag tbl))"
  by (simp add: filter_map comp_def)

section \<open>The claims\<close>

text \<open>
  C1. A listing filtered by \<open>favorited\<close> should hold exactly the articles that the named
  user has favourited. The source takes the identifiers of the user's favourites and
  compares them with the \<^emph>\<open>author\<close> column. In the small store Alice has favourited
  article \<open>two\<close> only, yet the listing for \<open>favorited = alice\<close> is article \<open>one\<close>: its
  author, Bob, has the id 2, which is the id of Alice's favourite article.
\<close>

theorem findAll_favorited_compares_author:
  "findAll literal demo 0 [''favorited'' \<mapsto> ''alice''] =
     Inr \<lparr>articles = [toJSON None article_one], articlesCount = 1\<rparr>
   \<and> favorites alice = [article_id article_two]
   \<and> article_id article_one \<notin> set (favorites alice)"
  by code_simp

text \<open>
  C2. After a call of \<open>favorite\<close> or \<open>unFavorite\<close>, the counter of every article, so also
  of the addressed one, is the number of users whose favourites hold it, given that this
  was so before the call and that user ids are unique. A call that fails leaves the store
  as it was.
\<close>

theorem favorite_unFavorite_counter_in_sync:
  assumes "distinct (map user_id (user_table s))" and "counter_in_sync s"
  shows "counter_in_sync (snd (favorite s i sl)) \<and> counter_in_sync (snd (unFavorite s i sl))"
proof
  show "counter_in_sync (snd (favorite s i sl))"
  proof (cases "article_by_slug s sl")
    case None
    then show ?thesis using assms by (simp add: snd_favorite)
  next
    case a: (Some a)
    show ?thesis
    proof (cases "user_by_id s i")
      case None
      then show ?thesis using assms a by (simp add: snd_favorite)
    next
      case u: (Some u)
      show ?thesis
      proof (cases "article_id a \<in> set (favorites u)")
        case True
        then show ?thesis using assms a u by (simp add: snd_favorite)
      next
        case False
        have "counter_in_sync
           (s\<lparr>user_table :=
                flush_user (u\<lparr>favorites := favorites u @ [article_id a]\<rparr>) (user_table s),
              article_table :=
                flush_article (a\<lparr>favoritesCount := favoritesCount a + 1\<rparr>) (article_table s)\<rparr>)"
          by (rule sync_after_write [OF assms, of a u])
            (use False article_by_slug_SomeD [OF a] user_by_id_SomeD [OF u] in auto)
        then show ?thesis using a u False by (simp add: snd_favorite)
      qed
    qed
  qed
  show "counter_in_sync (snd (unFavorite s i sl))"
  proof (cases "article_by_slug s sl")
    case None
    then show ?thesis using assms by (simp add: snd_unFavorite)
  next
    case a: (Some a)
    show ?thesis
    proof (cases "user_by_id s i")
      case None
      then show ?thesis using assms a by (simp add: snd_unFavorite)
    next
      case u: (Some u)
      show ?thesis
      proof (cases "article_id a \<in> set (favorites u)")
        case False
        then show ?thesis using assms a u by (simp add: snd_unFavorite)
      next
        case True
        have "counter_in_sync
           (s\<lparr>user_table :=
                flush_user (u\<lparr>favorites := filter (\<lambda>x. x \<noteq> article_id a) (favorites u)\<rparr>)
                  (user_table s),
              article_table :=
                flush_article (a\<lparr>favoritesCount := favoritesCount a - 1\<rparr>) (article_table s)\<rparr>)"
          by (rule sync_after_write [OF assms, of a u])
            (use True article_by_slug_SomeD [OF a] user_by_id_SomeD [OF u] in auto)
        then show ?thesis using a u True by (simp add: snd_unFavorite)
      qed
    qed
  qed
qed

text \<open>In the small store Bob favourites article \<open>two\<close> and Alice withdraws her favourite;
  both calls complete and the counters stay in sync.\<close>

theorem favorite_unFavorite_counter_in_sync_witness:
  "distinct (map user_id (user_table demo)) \<and> counter_in_sync demo
   \<and> fst (favorite demo 2 ''two'') \<noteq> Inl NotFoundError
   \<and> fst (unFavorite demo 1 ''two'') \<noteq> Inl NotFoundError
   \<and> counter_in_sync (snd (favorite demo 2 ''two''))
   \<and> counter_in_sync (snd (unFavorite demo 1 ''two''))"
proof -
  have d: "distinct (map user_id (user_table demo))" by code_simp
  have c: "counter_in_sync demo" by code_simp
  have f: "fst (favorite demo 2 ''two'') \<noteq> Inl NotFoundError" by code_simp
  have g: "fst (unFavorite demo 1 ''two'') \<noteq> Inl NotFoundError" by code_simp
  from favorite_unFavorite_counter_in_sync [OF d c, of 2 "''two''"]
    favorite_unFavorite_counter_in_sync [OF d c, of 1 "''two''"]
  show ?thesis using d c f g by simp
qed

text \<open>
  C3 as stated: for every existing user and article, \<open>favorite\<close> followed by \<open>unFavorite\<close>
  restores the counter. This fails when the user had favourited the article before: the
  first call changes nothing and the second takes the favourite away. In the small store
  Alice has favourited article \<open>two\<close>, whose counter is 1 before the two calls and 0 after.
\<close>

theorem favorite_then_unFavorite_counterexample:
  "article_by_slug demo ''two'' = Some article_two \<and> user_by_id demo 1 = Some alice
   \<and> favoritesCount article_two = 1
   \<and> map_option favoritesCount
       (article_by_slug (snd (unFavorite (snd (favorite demo 1 ''two'')) 1 ''two'')) ''two'') = Some 0"
  by code_simp

text \<open>
  C3, amended: for every existing user and article, \<open>favorite\<close> followed by \<open>unFavorite\<close>
  both complete and leave the user's favourites without the article; the counter is back
  at its earlier value when the user had not favourited the article before the two calls,
  and one below it when the user had.
\<close>

theorem favorite_then_unFavorite:
  assumes a: "article_by_slug s sl = Some a" and u: "user_by_id s i = Some u"
  shows "\<exists>r1 s1 r2 s2 a2 u2.
           favorite s i sl = (Inr r1, s1) \<and> unFavorite s1 i sl = (Inr r2, s2)
         \<and> user_by_id s2 i = Some u2 \<and> article_id a \<notin> set (favorites u2)
         \<and> article_by_slug s2 sl = Some a2 \<and> article_id a2 = article_id a
         \<and> (article_id a \<notin> set (favorites u) \<longrightarrow> favoritesCount a2 = favoritesCount a)
         \<and> (article_id a \<in> set (favorites u) \<longrightarrow> favoritesCount a2 = favoritesCount a - 1)"
proof (cases "article_id a \<in> set (favorites u)")
  case True
  let ?u2 = "u\<lparr>favorites := filter (\<lambda>x. x \<noteq> article_id a) (favorites u)\<rparr>"
  let ?a2 = "a\<lparr>favoritesCount := favoritesCount a - 1\<rparr>"
  let ?s2 = "s\<lparr>user_table := flush_user ?u2 (user_table s),
               article_table := flush_article ?a2 (article_table s)\<rparr>"
  have 1: "favorite s i sl = (Inr \<lparr>article = Some (toJSON (Some u) a)\<rparr>, s)"
    using True by (simp add: favorite_result [OF a u])
  have 2: "unFavorite s i sl = (Inr \<lparr>article = Some (toJSON (Some ?u2) ?a2)\<rparr>, ?s2)"
    using True by (simp add: unFavorite_result [OF a u])
  have 3: "article_by_slug ?s2 sl = Some ?a2 \<and> user_by_id ?s2 i = Some ?u2"
    by (rule lookups_after_write [OF a u]) simp_all
  show ?thesis using 1 2 3 True by auto
next
  case False
  let ?u1 = "u\<lparr>favorites := favorites u @ [article_id a]\<rparr>"
  let ?a1 = "a\<lparr>favoritesCount := favoritesCount a + 1\<rparr>"
  let ?s1 = "s\<lparr>user_table := flush_user ?u1 (user_table s),
               article_table := flush_article ?a1 (article_table s)\<rparr>"
  let ?s2 = "?s1\<lparr>user_table := flush_user u (user_table ?s1),
                 article_table := flush_article a (article_table ?s1)\<rparr>"
  have 1: "favorite s i sl = (Inr \<lparr>article = Some (toJSON (Some ?u1) ?a1)\<rparr>, ?s1)"
    using False by (simp add: favorite_result [OF a u])
  have l1: "article_by_slug ?s1 sl = Some ?a1 \<and> user_by_id ?s1 i = Some ?u1"
    by (rule lookups_after_write [OF a u]) simp_all
  have restored: "?u1\<lparr>favorites := filter (\<lambda>x. x \<noteq> article_id ?a1) (favorites ?u1)\<rparr> = u"
    and "?a1\<lparr>favoritesCount := favoritesCount ?a1 - 1\<rparr> = a"
  proof -
    have "filter (\<lambda>x. x \<noteq> article_id a) (favorites u) = favorites u"
      using False by (auto simp: filter_id_conv)
    then show "?u1\<lparr>favorites := filter (\<lambda>x. x \<noteq> article_id ?a1) (favorites ?u1)\<rparr> = u"
      by simp
    show "?a1\<lparr>favoritesCount := favoritesCount ?a1 - 1\<rparr> = a" by simp
  qed
  have 2: "unFavorite ?s1 i sl = (Inr \<lparr>article = Some (toJSON (Some u) a)\<rparr>, ?s2)"
    using l1 [THEN conjunct1] l1 [THEN conjunct2] restored
    by (simp add: unFavorite_result [OF l1 [THEN conjunct1] l1 [THEN conjunct2]])
  have 3: "article_by_slug ?s2 sl = Some a \<and> user_by_id ?s2 i = Some u"
    by (rule lookups_after_write [OF l1 [THEN conjunct1] l1 [THEN conjunct2]]) simp_all
  show ?thesis using 1 2 3 False by auto
qed

theorem favorite_then_unFavorite_witness:
  "article_by_slug demo ''two'' = Some article_two \<and> user_by_id demo 2 = Some bob
   \<and> article_id article_two \<notin> set (favorites bob)
   \<and> (\<exists>r1 s1 r2 s2 a2 u2.
           favorite demo 2 ''two'' = (Inr r1, s1) \<and> unFavorite s1 2 ''two'' = (Inr r2, s2)
         \<and> user_by_id s2 2 = Some u2 \<and> article_id article_two \<notin> set (favorites u2)
         \<and> article_by_slug s2 ''two'' = Some a2 \<and> favoritesCount a2 = favoritesCount article_two)"
proof -
  have a: "article_by_slug demo ''two'' = Some article_two" by code_simp
  have u: "user_by_id demo 2 = Some bob" by code_simp
  have n: "article_id article_two \<notin> set (favorites bob)" by code_simp
  from favorite_then_unFavorite [OF a u] show ?thesis using a u n by blast
qed

text \<open>
  C4. When \<open>findAll\<close> returns, the count it reports is taken before any paging: the call
  without \<open>limit\<close> and \<open>offset\<close> returns as well and reports the same count, and the paged
  listing is a window (some rows dropped at the front, then some taken) of the full one.
  The count is the number of distinct ids in the full listing, so with unique article ids
  it is the number of articles that match the filters.
\<close>

theorem findAll_count_before_paging:
  assumes "findAll RegExp s userId query = Inr ro"
  shows "\<exists>full.
       findAll RegExp s userId (query(''limit'' := None, ''offset'' := None)) = Inr full
     \<and> articlesCount ro = articlesCount full
     \<and> (\<exists>n k. articles ro = take n (drop k (articles full)))
     \<and> (distinct (map article_id (article_table s)) \<longrightarrow>
          articlesCount full = length (articles full))"
proof -
  obtain res where paged: "\<And>l off.
     findAll RegExp s userId (query(''limit'' := l, ''offset'' := off)) =
       map_sum id
         (\<lambda>rows. \<lparr>articles = map (toJSON (viewer_of s userId))
                               (apply_limit (map_option toNumber l)
                                  (apply_offset (map_option toNumber off) rows)),
                   articlesCount = length (remdups (map article_id rows))\<rparr>) res"
    and ids: "\<And>rows. res = Inr rows \<Longrightarrow> distinct (map article_id (article_table s)) \<Longrightarrow>
                distinct (map article_id rows)"
    using findAll_paged [of RegExp s userId query] by blast
  have same: "query(''limit'' := query ''limit'', ''offset'' := query ''offset'') = query"
    by simp
  from paged [of "query ''limit''" "query ''offset''"] assms obtain rows
    where res: "res = Inr rows"
    unfolding same by (cases res) auto
  obtain k where k: "apply_offset (map_option toNumber (query ''offset'')) rows = drop k rows"
    using apply_offset_drop by blast
  obtain n where n: "apply_limit (map_option toNumber (query ''limit'')) (drop k rows) =
                       take n (drop k rows)"
    using apply_limit_take by blast
  have "findAll RegExp s userId query =
       Inr \<lparr>articles = map (toJSON (viewer_of s userId)) (take n (drop k rows)),
            articlesCount = length (remdups (map article_id rows))\<rparr>"
    using paged [of "query ''limit''" "query ''offset''"]
    by (simp only: same res k n map_sum.simps)
  with assms have 1: "ro = \<lparr>articles = map (toJSON (viewer_of s userId)) (take n (drop k rows)),
            articlesCount = length (remdups (map article_id rows))\<rparr>" by simp
  have 2: "findAll RegExp s userId (query(''limit'' := None, ''offset'' := None)) =
       Inr \<lparr>articles = map (toJSON (viewer_of s userId)) rows,
            articlesCount = length (remdups (map article_id rows))\<rparr>"
    using paged [of None None] by (simp add: res apply_limit_def apply_offset_def)
  have 3: "length (remdups (map article_id rows)) = length rows"
    if "distinct (map article_id (article_table s))"
    using ids [OF res that] by (simp add: distinct_remdups_id)
  have 4: "map (toJSON (viewer_of s userId)) (take n (drop k rows)) =
           take n (drop k (map (toJSON (viewer_of s userId)) rows))"
    by (simp add: take_map drop_map)
  show ?thesis unfolding 1 2 using 3 4 by auto
qed

text \<open>With \<open>limit = 2\<close> and \<open>offset = 0\<close> over the five matching articles of \<open>five\<close>, two
  articles are returned and the count is 5.\<close>

theorem findAll_count_before_paging_witness:
  "distinct (map article_id (article_table five)) \<and> (\<exists>ro full.
       findAll literal five 0 [''limit'' \<mapsto> ''2'', ''offset'' \<mapsto> ''0''] = Inr ro
     \<and> findAll literal five 0 Map.empty = Inr full
     \<and> length (articles full) = 5 \<and> length (articles ro) = 2 \<and> articlesCount ro = 5)"
proof -
  let ?q = "[''limit'' \<mapsto> ''2'', ''offset'' \<mapsto> ''0'']"
  have e: "?q(''limit'' := None, ''offset'' := None) = Map.empty" by auto
  have "map_sum id (\<lambda>r. length (articles r)) (findAll literal five 0 ?q) = Inr 2" by code_simp
  then obtain ro where ro: "findAll literal five 0 ?q = Inr ro" and 2: "length (articles ro) = 2"
    by (cases "findAll literal five 0 ?q") auto
  have d: "distinct (map article_id (article_table five))" by code_simp
  from findAll_count_before_paging [OF ro] d
  obtain full where r: "findAll literal five 0 Map.empty = Inr full"
    "articlesCount full = length (articles full)" "articlesCount ro = articlesCount full"
    unfolding e by blast
  have "map_sum id (\<lambda>r. length (articles r)) (findAll literal five 0 Map.empty) = Inr 5"
    by code_simp
  then have 5: "length (articles full) = 5" using r(1) by simp
  show ?thesis using d ro r 5 2 by auto
qed

text \<open>
  C5. \<open>create\<close> with an empty or missing title, description or body fails with the
  validation error whose message names the three required fields, and the store is the
  one before the call: no article row and no tag row has been added.
\<close>

theorem create_rejects_missing_fields:
  assumes "text_of (dto_title dto) = [] \<or> text_of (dto_description dto) = []
           \<or> text_of (dto_body dto) = []"
  shows "create s f userId dto =
           (Inl (BadRequestException ''Title, description, and body are required.''), s)"
  using assms by (simp add: create_def)

text \<open>An empty title and a missing body in the small store.\<close>

theorem create_rejects_missing_fields_witness:
  "text_of (dto_title \<lparr>dto_title = Some [], dto_description = Some ''about'', dto_body = None,
                        dto_tagList = TagString ''foo, bar''\<rparr>) = []
   \<and> create demo \<lparr>new_slug = ''three'', now = 30\<rparr> 1
        \<lparr>dto_title = Some [], dto_description = Some ''about'', dto_body = None,
         dto_tagList = TagString ''foo, bar''\<rparr> =
       (Inl (BadRequestException ''Title, description, and body are required.''), demo)"
proof -
  let ?dto = "\<lparr>dto_title = Some [], dto_description = Some ''about'', dto_body = None,
               dto_tagList = TagString ''foo, bar''\<rparr>"
  have h: "text_of (dto_title ?dto) = []" by (simp add: text_of_def)
  then have "text_of (dto_title ?dto) = [] \<or> text_of (dto_description ?dto) = []
           \<or> text_of (dto_body ?dto) = []" by blast
  from create_rejects_missing_fields [OF this] show ?thesis using h by blast
qed

text \<open>
  C6. For a request with the three required fields and an existing author, \<open>create\<close>
  appends one article whose tag list is the normalised input: the trimmed pieces of the
  input, each once, none starting or ending with white space. The tag table keeps every
  row it had and gains, at its end, one row for each normalised name it did not hold; so
  if its names were unique before, each normalised name has exactly one row afterwards.
\<close>

theorem create_reconciles_tags:
  assumes "text_of (dto_title dto) \<noteq> []" and "text_of (dto_description dto) \<noteq> []"
    and "text_of (dto_body dto) \<noteq> []" and "user_by_id s userId = Some u"
  shows "\<exists>ro s' a new.
           create s f userId dto = (Inr ro, s')
         \<and> article_table s' = article_table s @ [a]
         \<and> tagList a = processTags (dto_tagList dto)
         \<and> set (tagList a) = trim ` (case dto_tagList dto of
                                        TagString str \<Rightarrow> set (split_comma str)
                                      | TagArray xs \<Rightarrow> set xs
                                      | TagOther \<Rightarrow> {})
         \<and> distinct (tagList a)
         \<and> list_all (\<lambda>n. n = [] \<or> (\<not> is_space (hd n) \<and> \<not> is_space (last n))) (tagList a)
         \<and> tag_table s' = tag_table s @ new
         \<and> map tag new = filter (\<lambda>n. n \<notin> tag ` set (tag_table s)) (tagList a)
         \<and> (distinct (map tag (tag_table s)) \<longrightarrow>
              list_all (\<lambda>n. length (filter (\<lambda>t. tag t = n) (tag_table s')) = 1) (tagList a))"
proof -
  define names where "names = processTags (dto_tagList dto)"
  define a where "a = (new_Article s f u (text_of (dto_title dto)) (text_of (dto_description dto))
               (text_of (dto_body dto)))\<lparr>tagList := names\<rparr>"
  define ex where "ex = map tag (filter (\<lambda>t. tag t \<in> set names) (tag_table s))"
  define s' where "s' = s\<lparr>article_table := article_table s @ [a],
               tag_table := persist_new_tags ex names (tag_table s)\<rparr>"
  have run: "create s f userId dto = (Inr \<lparr>article = Some (toJSON (Some u) a)\<rparr>, s')"
    using assms unfolding create_def Let_def s'_def ex_def a_def names_def
    by (simp add: new_Article_def)
  have tl: "tagList a = names" by (simp add: a_def)
  have d: "distinct names" by (simp add: names_def processTags_def Let_def)
  have "n = [] \<or> (\<not> is_space (hd n) \<and> \<not> is_space (last n))" if "n \<in> set names" for n
  proof -
    from that obtain x where "n = trim x"
      by (auto simp: names_def processTags_def Let_def split: tagList_input.splits)
    then show ?thesis using trim_trimmed [of x] by simp
  qed
  then have t: "list_all (\<lambda>n. n = [] \<or> (\<not> is_space (hd n) \<and> \<not> is_space (last n))) names"
    unfolding list_all_iff by blast
  obtain new where new: "persist_new_tags ex names (tag_table s) = tag_table s @ new"
      and new_names: "map tag new = filter (\<lambda>n. n \<notin> set ex) names"
    using map_tag_persist_new_tags by blast
  have "filter (\<lambda>n. n \<notin> set ex) names = filter (\<lambda>n. n \<notin> tag ` set (tag_table s)) names"
    by (rule filter_cong) (auto simp: ex_def)
  with new_names have fresh: "map tag new = filter (\<lambda>n. n \<notin> tag ` set (tag_table s)) names"
    by simp
  have tt: "tag_table s' = tag_table s @ new" by (simp add: s'_def new)
  have once: "list_all (\<lambda>n. length (filter (\<lambda>t. tag t = n) (tag_table s')) = 1) names"
    if u: "distinct (map tag (tag_table s))"
  proof -
    have "distinct (filter (\<lambda>n. n \<notin> tag ` set (tag_table s)) names)" using d by simp
    then have 1: "distinct (map tag (tag_table s @ new))"
      using u fresh by auto
    have 2: "n \<in> set (map tag (tag_table s @ new))" if "n \<in> set names" for n
    proof (cases "n \<in> tag ` set (tag_table s)")
      case True
      then show ?thesis by simp
    next
      case False
      with that have "n \<in> set (map tag new)" unfolding fresh by simp
      then show ?thesis by simp
    qed
    have "length (filter (\<lambda>t. tag t = n) (tag_table s')) = 1" if "n \<in> set names" for n
      unfolding tt count_rows_by_name using 1 2 [OF that] by (rule one_row_per_name)
    then show ?thesis unfolding list_all_iff by blast
  qed
  have at: "article_table s' = article_table s @ [a]" by (simp add: s'_def)
  have tl': "tagList a = processTags (dto_tagList dto)" using tl names_def by simp
  have pieces: "set (tagList a) = trim ` (case dto_tagList dto of
                                        TagString str \<Rightarrow> set (split_comma str)
                                      | TagArray xs \<Rightarrow> set xs
                                      | TagOther \<Rightarrow> {})"
    unfolding tl' by (simp add: processTags_def Let_def split: tagList_input.splits)
  have once': "distinct (map tag (tag_table s)) \<longrightarrow>
      list_all (\<lambda>n. length (filter (\<lambda>t. tag t = n) (tag_table s')) = 1) (tagList a)"
    using once tl by simp
  note facts = run at tl' pieces d [folded tl] t [folded tl] tt fresh [folded tl] once'
  show ?thesis
    apply (rule exI [of _ "\<lparr>article = Some (toJSON (Some u) a)\<rparr>"])
    apply (rule exI [of _ s'])
    apply (rule exI [of _ a])
    apply (rule exI [of _ new])
    apply (intro conjI)
           apply (rule facts)+
    done
qed

text \<open>The request \<open>draft\<close> with the tag list \<open>foo, bar, foo\<close> in the small store, where
  \<open>foo\<close> is a known tag: the article gets \<open>foo\<close> and \<open>bar\<close>, the table gains a row for
  \<open>bar\<close> only, and each of the two names has one row.\<close>

theorem create_reconciles_tags_witness:
  "text_of (dto_title draft) \<noteq> [] \<and> text_of (dto_description draft) \<noteq> []
   \<and> text_of (dto_body draft) \<noteq> [] \<and> user_by_id demo 1 = Some alice
   \<and> dto_tagList draft = TagString ''foo, bar, foo''
   \<and> map tag (tag_table demo) = [''foo'']
   \<and> (\<exists>ro s' a new.
           create demo stamp 1 draft = (Inr ro, s')
         \<and> article_table s' = article_table demo @ [a]
         \<and> tagList a = [''foo'', ''bar'']
         \<and> tag_table s' = tag_table demo @ new
         \<and> map tag new = [''bar'']
         \<and> list_all (\<lambda>n. length (filter (\<lambda>t. tag t = n) (tag_table s')) = 1) [''foo'', ''bar''])"
proof -
  have h1: "text_of (dto_title draft) \<noteq> []" by code_simp
  have h2: "text_of (dto_description draft) \<noteq> []" by code_simp
  have h3: "text_of (dto_body draft) \<noteq> []" by code_simp
  have h4: "user_by_id demo 1 = Some alice" by code_simp
  have i: "dto_tagList draft = TagString ''foo, bar, foo''" by code_simp
  have n: "processTags (dto_tagList draft) = [''foo'', ''bar'']" by code_simp
  have e: "map tag (tag_table demo) = [''foo'']" by code_simp
  then have d: "distinct (map tag (tag_table demo))" by simp
  have "tag ` set (tag_table demo) = set (map tag (tag_table demo))" by simp
  then have f: "filter (\<lambda>n. n \<notin> tag ` set (tag_table demo)) [''foo'', ''bar''] = [''bar'']"
    unfolding e by simp
  from create_reconciles_tags [OF h1 h2 h3 h4, of stamp]
  obtain ro s' a new where
    r: "create demo stamp 1 draft = (Inr ro, s')"
      "article_table s' = article_table demo @ [a]"
      "tagList a = processTags (dto_tagList draft)"
      "tag_table s' = tag_table demo @ new"
      "map tag new = filter (\<lambda>n. n \<notin> tag ` set (tag_table demo)) (tagList a)"
      "distinct (map tag (tag_table demo)) \<longrightarrow>
         list_all (\<lambda>n. length (filter (\<lambda>t. tag t = n) (tag_table s')) = 1) (tagList a)"
    by blast
  have t: "tagList a = [''foo'', ''bar'']" using r(3) n by simp
  have b: "map tag new = [''bar'']" using r(5) unfolding t f .
  have o: "list_all (\<lambda>n. length (filter (\<lambda>t. tag t = n) (tag_table s')) = 1) [''foo'', ''bar'']"
    using r(6) d unfolding t by blast
  have "\<exists>ro s' a new.
           create demo stamp 1 draft = (Inr ro, s')
         \<and> article_table s' = article_table demo @ [a]
         \<and> tagList a = [''foo'', ''bar'']
         \<and> tag_table s' = tag_table demo @ new
         \<and> map tag new = [''bar'']
         \<and> list_all (\<lambda>n. length (filter (\<lambda>t. tag t = n) (tag_table s')) = 1) [''foo'', ''bar'']"
    by (intro exI [of _ ro] exI [of _ s'] exI [of _ a] exI [of _ new] conjI)
       (rule r(1) r(2) t r(4) b o)+
  with h1 h2 h3 h4 i e show ?thesis by (intro conjI)
qed

text \<open>
  C7. When the article and the viewer exist and the comment id is not in the article's
  comment collection, \<open>deleteComment\<close> raises no error, returns the article and leaves
  the whole store, so the collection and the comment, as it was.
\<close>

theorem deleteComment_not_a_member:
  assumes "article_by_slug s sl = Some a" and "user_by_id s userId = Some u"
    and "\<not> comments_contains s a i"
  shows "deleteComment s userId sl i = (Inr \<lparr>article = Some (toJSON (Some u) a)\<rparr>, s)"
  using assms
  by (simp add: deleteComment_def article_by_slug_or_fail_def user_by_id_or_fail_def)

text \<open>Comment 1 of the small store belongs to article \<open>two\<close>; deleting it through article
  \<open>one\<close> changes nothing.\<close>

theorem deleteComment_not_a_member_witness:
  "article_by_slug demo ''one'' = Some article_one \<and> user_by_id demo 2 = Some bob
   \<and> \<not> comments_contains demo article_one 1
   \<and> comments_contains demo article_two 1
   \<and> deleteComment demo 2 ''one'' 1 = (Inr \<lparr>article = Some (toJSON (Some bob) article_one)\<rparr>, demo)"
proof -
  have a: "article_by_slug demo ''one'' = Some article_one" by code_simp
  have u: "user_by_id demo 2 = Some bob" by code_simp
  have n: "\<not> comments_contains demo article_one 1" by code_simp
  have m: "comments_contains demo article_two 1" by code_simp
  from deleteComment_not_a_member [OF a u n] show ?thesis using a u n m by blast
qed






text \<open>
  C10. When a viewer id is supplied and no user has it, \<open>findOne\<close> fails with the
  not-found error whatever the selector, so also when the article exists; \<open>findAll\<close>
  with the same id does not fail with that error and does what it does for an absent
  viewer.
\<close>

theorem findOne_unknown_viewer_fails:
  assumes "userId \<noteq> 0" and "user_by_id s userId = None"
  shows "findOne s userId where = Inl NotFoundError
       \<and> findAll RegExp s userId query \<noteq> Inl NotFoundError
       \<and> findAll RegExp s userId query = findAll RegExp s 0 query"
proof -
  have "viewer_of s userId = viewer_of s 0" using assms by (simp add: viewer_of_def)
  then have "findAll RegExp s userId query = findAll RegExp s 0 query"
    by (simp add: findAll_def)
  moreover have "findAll RegExp s userId query \<noteq> Inl NotFoundError"
    using findAll_failure [of RegExp s userId query NotFoundError] by auto
  moreover have "findOne s userId where = Inl NotFoundError"
    using assms by (simp add: findOne_def user_by_id_or_fail_def)
  ultimately show ?thesis by blast
qed

text \<open>No user of the small store has the id 9. Article \<open>one\<close> exists and an absent viewer
  gets it, the viewer 9 gets the not-found error; the listing for the viewer 9 is the
  listing for an absent viewer, with both articles.\<close>

theorem findOne_unknown_viewer_fails_witness:
  "(9::nat) \<noteq> 0 \<and> user_by_id demo 9 = None
   \<and> findOne demo 0 (\<lambda>a. slug a = ''one'') = Inr \<lparr>article = Some (toJSON None article_one)\<rparr>
   \<and> findOne demo 9 (\<lambda>a. slug a = ''one'') = Inl NotFoundError
   \<and> findAll literal demo 9 Map.empty = findAll literal demo 0 Map.empty
   \<and> findAll literal demo 0 Map.empty =
       Inr \<lparr>articles = [toJSON None article_two, toJSON None article_one], articlesCount = 2\<rparr>"
proof -
  have n: "(9::nat) \<noteq> 0" by simp
  have u: "user_by_id demo 9 = None" by code_simp
  have a: "findOne demo 0 (\<lambda>a. slug a = ''one'') = Inr \<lparr>article = Some (toJSON None article_one)\<rparr>"
    by code_simp
  have r: "findAll literal demo 0 Map.empty =
       Inr \<lparr>articles = [toJSON None article_two, toJSON None article_one], articlesCount = 2\<rparr>"
    by code_simp
  from findOne_unknown_viewer_fails [OF n u] show ?thesis using n u a r by blast
qed

end
